theory Spec2Isabelle
  imports Main
begin

section \<open>The producer gateway: dispatch and status tracking\<close>

text \<open>
  A shallow embedding of \<^verbatim>\<open>src/apis/kafka/producer.py\<close>: the handlers \<^verbatim>\<open>push\<close> and
  \<^verbatim>\<open>get_status\<close> and the helpers \<^verbatim>\<open>get_pending_queue\<close> and \<^verbatim>\<open>fetch_redis\<close>.

  The Redis client and the Kafka producer are process-wide objects that the handlers
  call for their effects. The model passes a \<open>world\<close> through every call: the content of
  the Redis database, how the broker answers a send, and the trace of every command
  issued so far, in the order of issue. An exception of the source is a value \<open>Inl e\<close>;
  the world reached when it was raised is returned beside it, since the commands issued
  before the exception have taken effect.
\<close>

subsection \<open>Values held by the store\<close>

text \<open>
  Every value under a key is a JSON document. The documents the program writes are the
  array of uid strings (\<^verbatim>\<open>json.dumps(queue)\<close>) and the object with the members
  \<^verbatim>\<open>status\<close> and \<^verbatim>\<open>data\<close>, in this order (\<^verbatim>\<open>json.dumps(dict(status=..., data=...))\<close>).
  The model holds these two shapes, under any key: the queue key can hold an object and
  a uid can be the queue key, as in Redis. A payload is opaque JSON text; \<open>None\<close> is JSON
  \<^verbatim>\<open>null\<close>.
\<close>

type_synonym payload = string

datatype json = JArray "string list" | JObject string "payload option"

datatype error =
    KafkaError
  | TypeError
  | AttributeError
  | KeyError
  | IndexError
  | ValueError
  | ValidationError

record ProducerModel =
  task :: string
  params :: "(string \<times> payload) list"

datatype message = Message (msg_uid: string) (msg_task: string) (msg_params: "(string \<times> payload) list")

datatype ProducerResponseModel = ProducerResponseModel string

datatype Status = PENDING | WORKING | FINISHED | EXCEPTION

datatype StatusData = StatusData (status: string) (data: "payload option")

datatype StatusModel = StatusModel (status: Status) (pending: int) (data: "payload option")

subsection \<open>The world: Redis, the broker, and the trace of commands\<close>

datatype event =
    KafkaSend string message
  | RedisGet string
  | RedisSet string json

text \<open>
  What \<^verbatim>\<open>kafka_producer.send\<close> returns: a future that reports, later, whether the
  message was delivered to the broker.
\<close>

datatype future = Delivered | Failed error

text \<open>
  The broker answers a send in one of three ways. When \<open>kafka_up\<close> is false the call
  itself raises. Otherwise the call returns a future, and \<open>kafka_delivers\<close> says whether
  that future reports the delivery or its failure.
\<close>

record world =
  store :: "string \<rightharpoonup> json"
  kafka_up :: bool
  kafka_delivers :: bool
  trace :: "event list"

definition pending_queue_key :: string where
  "pending_queue_key = ''KAFKA_PENDING_QUEUE''"

text \<open>\<^verbatim>\<open>redis_client.get(key)\<close>: the value under the key, or \<open>None\<close>.\<close>

definition redis_get :: "world \<Rightarrow> string \<Rightarrow> json option \<times> world" where
  "redis_get w key = (store w key, w\<lparr>trace := trace w @ [RedisGet key]\<rparr>)"

text \<open>\<^verbatim>\<open>redis_client.set(key, value)\<close>.\<close>

definition redis_set :: "world \<Rightarrow> string \<Rightarrow> json \<Rightarrow> world" where
  "redis_set w key v = w\<lparr>store := (store w)(key \<mapsto> v), trace := trace w @ [RedisSet key v]\<rparr>"

text \<open>
  \<^verbatim>\<open>kafka_producer.send(topic, value)\<close>: the call raises and nothing is sent, or the call
  joins the trace and returns the future of the delivery. A publish can so fail in two
  ways: by the exception of \<^verbatim>\<open>send\<close>, or through the future, after \<^verbatim>\<open>send\<close> has returned.
\<close>

definition kafka_send :: "world \<Rightarrow> string \<Rightarrow> message \<Rightarrow> (error + future) \<times> world" where
  "kafka_send w topic m =
     (if kafka_up w
      then (Inr (if kafka_delivers w then Delivered else Failed KafkaError),
            w\<lparr>trace := trace w @ [KafkaSend topic m]\<rparr>)
      else (Inl KafkaError, w))"

subsection \<open>Python operations on a decoded JSON value\<close>

text \<open>
  \<^verbatim>\<open>get_pending_queue\<close> returns whatever \<^verbatim>\<open>json.loads\<close> decodes, so the operations the
  handlers apply to \<^verbatim>\<open>queue\<close> are defined on both shapes: on an array they are the list
  operations; on an object they are those of a \<^verbatim>\<open>dict\<close> with the keys \<^verbatim>\<open>status\<close> and
  \<^verbatim>\<open>data\<close>.
\<close>

text \<open>\<^verbatim>\<open>queue.append(uid)\<close>; a dict has no \<^verbatim>\<open>append\<close>.\<close>

fun py_append :: "json \<Rightarrow> string \<Rightarrow> error + json" where
  "py_append (JArray xs) x = Inr (JArray (xs @ [x]))"
| "py_append (JObject st d) x = Inl AttributeError"

text \<open>
  Iteration, as in \<^verbatim>\<open>enumerate(queue)\<close>: the elements of a list, the keys of a dict. The
  keys come in the member order of the stored text, which for an object of the model is
  \<^verbatim>\<open>status\<close>, \<^verbatim>\<open>data\<close>.
\<close>

fun py_iter :: "json \<Rightarrow> string list" where
  "py_iter (JArray xs) = xs"
| "py_iter (JObject st d) = [''status'', ''data'']"

text \<open>
  \<^verbatim>\<open>queue.pop(idx)\<close> for an index \<open>idx \<ge> 0\<close>: a list drops the element at the index or
  raises \<^verbatim>\<open>IndexError\<close>; a dict with string keys has no integer key and raises
  \<^verbatim>\<open>KeyError\<close>.
\<close>

fun py_pop :: "json \<Rightarrow> nat \<Rightarrow> error + json" where
  "py_pop (JArray xs) idx =
     (if idx < length xs then Inr (JArray (take idx xs @ drop (Suc idx) xs)) else Inl IndexError)"
| "py_pop (JObject st d) idx = Inl KeyError"

text \<open>\<^verbatim>\<open>len(queue)\<close>.\<close>

fun py_len :: "json \<Rightarrow> nat" where
  "py_len (JArray xs) = length xs"
| "py_len (JObject st d) = 2"

text \<open>\<^verbatim>\<open>list.index(x)\<close>: the position of the first element equal to \<open>x\<close>.\<close>

fun list_index :: "string list \<Rightarrow> string \<Rightarrow> error + nat" where
  "list_index [] x = Inl ValueError"
| "list_index (y # ys) x =
     (if y = x then Inr 0
      else (case list_index ys x of Inl e \<Rightarrow> Inl e | Inr i \<Rightarrow> Inr (Suc i)))"

text \<open>\<^verbatim>\<open>queue.index(uid)\<close>; a dict has no \<^verbatim>\<open>index\<close>.\<close>

fun py_index :: "json \<Rightarrow> string \<Rightarrow> error + nat" where
  "py_index (JArray xs) x = list_index xs x"
| "py_index (JObject st d) x = Inl AttributeError"

subsection \<open>\<^verbatim>\<open>push\<close>\<close>

text \<open>
  \<^verbatim>\<open>get_pending_queue\<close> (lines 185-189): the decoded value under the queue key, the empty
  list when the key is absent.
\<close>

definition get_pending_queue :: "world \<Rightarrow> json \<times> world" where
  "get_pending_queue w =
     (case redis_get w pending_queue_key of
        (None, w') \<Rightarrow> (JArray [], w')
      | (Some v, w') \<Rightarrow> (v, w'))"

text \<open>
  \<^verbatim>\<open>push\<close> (lines 159-177). \<open>uid\<close> is the value \<^verbatim>\<open>random_hash()\<close> returned: the
  function is the library's (cftool) and its choice is an input of the model. \<open>body\<close> is
  the request body, the source's \<^verbatim>\<open>data\<close>. Line 162 calls \<^verbatim>\<open>send\<close> as a statement: the
  future \<open>u\<close> it returns is dropped.
\<close>

definition push :: "world \<Rightarrow> string \<Rightarrow> ProducerModel \<Rightarrow> string \<Rightarrow> (error + ProducerResponseModel) \<times> world" where
  "push w uid body topic =
     (case kafka_send w topic (Message uid (task body) (params body)) of
        (Inl e, w1) \<Rightarrow> (Inl e, w1)
      | (Inr u, w1) \<Rightarrow>
          (case get_pending_queue w1 of
             (queue, w2) \<Rightarrow>
               (case py_append queue uid of
                  Inl e \<Rightarrow> (Inl e, w2)
                | Inr queue' \<Rightarrow>
                    (Inr (ProducerResponseModel uid),
                     redis_set (redis_set w2 pending_queue_key queue') uid
                       (JObject ''pending'' None)))))"

subsection \<open>\<^verbatim>\<open>get_status\<close>\<close>

text \<open>
  \<^verbatim>\<open>StatusData(**json.loads(data))\<close>: the members of the object become the fields; a
  list after \<^verbatim>\<open>**\<close> is a \<^verbatim>\<open>TypeError\<close>. \<^verbatim>\<open>StatusData\<close> is a \<^verbatim>\<open>NamedTuple\<close> and checks
  nothing: the status is whatever string is stored.
\<close>

fun load_StatusData :: "json \<Rightarrow> error + StatusData" where
  "load_StatusData (JObject st d) = Inr (StatusData st d)"
| "load_StatusData (JArray xs) = Inl TypeError"

text \<open>\<^verbatim>\<open>fetch_redis\<close> (lines 216-220).\<close>

definition fetch_redis :: "world \<Rightarrow> string \<Rightarrow> (error + StatusData) \<times> world" where
  "fetch_redis w uid =
     (case redis_get w uid of
        (None, w') \<Rightarrow> (Inr (StatusData ''pending'' None), w')
      | (Some v, w') \<Rightarrow> (load_StatusData v, w'))"

text \<open>
  The loop of lines 231-233 over \<^verbatim>\<open>enumerate(queue)\<close>: \<open>i\<close> is the running index and
  \<open>pop_indices\<close> the list collected so far.
\<close>

fun collect_pop_indices :: "world \<Rightarrow> nat \<Rightarrow> string list \<Rightarrow> nat list \<Rightarrow> (error + nat list) \<times> world" where
  "collect_pop_indices w i [] pop_indices = (Inr pop_indices, w)"
| "collect_pop_indices w i (i_uid # rest) pop_indices =
     (case fetch_redis w i_uid of
        (Inl e, w') \<Rightarrow> (Inl e, w')
      | (Inr r, w') \<Rightarrow>
          collect_pop_indices w' (Suc i) rest
            (if StatusData.status r = ''finished'' then pop_indices @ [i] else pop_indices))"

text \<open>The loop of lines 234-235, called on \<^verbatim>\<open>pop_indices[::-1]\<close>.\<close>

fun pop_each :: "json \<Rightarrow> nat list \<Rightarrow> error + json" where
  "pop_each queue [] = Inr queue"
| "pop_each queue (idx # rest) =
     (case py_pop queue idx of Inl e \<Rightarrow> Inl e | Inr queue' \<Rightarrow> pop_each queue' rest)"

text \<open>
  Lines 229-237, the step the specification names \<^verbatim>\<open>prune_and_rewrite\<close>: read the queue,
  drop the uids whose record is finished, write the queue back when an index was
  collected. It returns the local \<^verbatim>\<open>queue\<close>.
\<close>

definition prune_and_rewrite :: "world \<Rightarrow> (error + json) \<times> world" where
  "prune_and_rewrite w =
     (case get_pending_queue w of
        (queue, w1) \<Rightarrow>
          (case collect_pop_indices w1 0 (py_iter queue) [] of
             (Inl e, w2) \<Rightarrow> (Inl e, w2)
           | (Inr pop_indices, w2) \<Rightarrow>
               (case pop_each queue (rev pop_indices) of
                  Inl e \<Rightarrow> (Inl e, w2)
                | Inr queue' \<Rightarrow>
                    (Inr queue',
                     if pop_indices \<noteq> [] then redis_set w2 pending_queue_key queue' else w2))))"

text \<open>
  Lines 238-241: the index of the uid in the pruned queue; the bare \<^verbatim>\<open>except\<close> turns any
  exception of \<^verbatim>\<open>queue.index\<close> into \<^verbatim>\<open>len(queue) - 1\<close>, a Python integer.
\<close>

definition queue_lag :: "json \<Rightarrow> string \<Rightarrow> int" where
  "queue_lag queue uid =
     (case py_index queue uid of Inr i \<Rightarrow> int i | Inl e \<Rightarrow> int (py_len queue) - 1)"

text \<open>
  The pydantic validation of \<^verbatim>\<open>StatusModel(status=..., data=..., pending=...)\<close>: the status
  must be a value of the enumeration \<^verbatim>\<open>Status\<close>.
\<close>

definition Status_of :: "string \<Rightarrow> Status option" where
  "Status_of s =
     (if s = ''pending'' then Some PENDING
      else if s = ''working'' then Some WORKING
      else if s = ''finished'' then Some FINISHED
      else if s = ''exception'' then Some EXCEPTION
      else None)"

definition make_StatusModel :: "string \<Rightarrow> payload option \<Rightarrow> int \<Rightarrow> error + StatusModel" where
  "make_StatusModel st d lag =
     (case Status_of st of None \<Rightarrow> Inl ValidationError | Some s \<Rightarrow> Inr (StatusModel s lag d))"

text \<open>\<^verbatim>\<open>get_status\<close> (lines 223-242).\<close>

definition get_status :: "world \<Rightarrow> string \<Rightarrow> (error + StatusModel) \<times> world" where
  "get_status w uid =
     (case fetch_redis w uid of
        (Inl e, w1) \<Rightarrow> (Inl e, w1)
      | (Inr record, w1) \<Rightarrow>
          (case (if StatusData.status record = ''finished'' then (Inr 0, w1)
                 else (case prune_and_rewrite w1 of
                         (Inl e, w2) \<Rightarrow> (Inl e, w2)
                       | (Inr queue, w2) \<Rightarrow> (Inr (queue_lag queue uid), w2))) of
             (Inl e, w2) \<Rightarrow> (Inl e, w2)
           | (Inr lag, w2) \<Rightarrow>
               (make_StatusModel (StatusData.status record) (StatusData.data record) lag, w2)))"

subsection \<open>Views of the world used in the statements\<close>

text \<open>
  The queue snapshot of the specification is what \<^verbatim>\<open>get_pending_queue\<close> returns.
\<close>

definition snapshot :: "world \<Rightarrow> json" where
  "snapshot w = fst (get_pending_queue w)"

text \<open>
  A key is readable when \<^verbatim>\<open>fetch_redis\<close> returns a record for it, and finished when the
  status of that record is \<^verbatim>\<open>"finished"\<close>, the test of line 232.
\<close>

definition readable :: "world \<Rightarrow> string \<Rightarrow> bool" where
  "readable w u = (case fst (fetch_redis w u) of Inl e \<Rightarrow> False | Inr r \<Rightarrow> True)"

definition is_finished :: "world \<Rightarrow> string \<Rightarrow> bool" where
  "is_finished w u =
     (case fst (fetch_redis w u) of Inl e \<Rightarrow> False | Inr r \<Rightarrow> StatusData.status r = ''finished'')"

text \<open>The uids of a queue that pruning keeps, in their order.\<close>

definition unfinished :: "world \<Rightarrow> string list \<Rightarrow> string list" where
  "unfinished w q = filter (\<lambda>u. \<not> is_finished w u) q"

text \<open>The positions, counted from \<open>i\<close>, of the finished uids of a queue.\<close>

fun finished_indices :: "world \<Rightarrow> nat \<Rightarrow> string list \<Rightarrow> nat list" where
  "finished_indices w i [] = []"
| "finished_indices w i (u # us) =
     (if is_finished w u then i # finished_indices w (Suc i) us else finished_indices w (Suc i) us)"

text \<open>The world after the commands \<open>es\<close> that change nothing in the store.\<close>

definition issued :: "world \<Rightarrow> event list \<Rightarrow> world" where
  "issued w es = w\<lparr>trace := trace w @ es\<rparr>"

text \<open>The commands that change the store.\<close>

fun is_write :: "event \<Rightarrow> bool" where
  "is_write (RedisSet key v) = True"
| "is_write (RedisGet key) = False"
| "is_write (KafkaSend topic m) = False"

text \<open>
  A store in the layout of the program, used to evaluate the theorems: three tasks were
  pushed and a worker has finished the first.
\<close>

definition scenario :: world where
  "scenario =
     \<lparr>store =
        [pending_queue_key \<mapsto> JArray [''abc123'', ''def456'', ''ghi789''],
         ''abc123'' \<mapsto> JObject ''finished'' (Some ''url''),
         ''def456'' \<mapsto> JObject ''working'' None,
         ''ghi789'' \<mapsto> JObject ''pending'' None],
      kafka_up = True,
      kafka_delivers = True,
      trace = []\<rparr>"

text \<open>
  A second store: the only task of the queue is finished; the broker is down.
\<close>

definition drained :: world where
  "drained =
     \<lparr>store =
        [pending_queue_key \<mapsto> JArray [''abc123''],
         ''abc123'' \<mapsto> JObject ''finished'' (Some ''url'')],
      kafka_up = False,
      kafka_delivers = False,
      trace = []\<rparr>"

section \<open>Reads leave the store alone\<close>

lemma issued_simps [simp]:
  "store (issued w es) = store w" "kafka_up (issued w es) = kafka_up w"
  "kafka_delivers (issued w es) = kafka_delivers w"
  "trace (issued w es) = trace w @ es"
  "issued (issued w es) es' = issued w (es @ es')"
  by (simp_all add: issued_def)

lemma issued_Nil [simp]: "issued w [] = w"
  by (simp add: issued_def)

lemma fetch_redis_snd: "snd (fetch_redis w u) = issued w [RedisGet u]"
  by (simp add: fetch_redis_def redis_get_def issued_def split: option.splits)

lemma fetch_redis_fst_store: "store w' = store w \<Longrightarrow> fst (fetch_redis w' u) = fst (fetch_redis w u)"
  by (simp add: fetch_redis_def redis_get_def split: option.splits)

lemma fetch_redis_eq: "fetch_redis w u = (fst (fetch_redis w u), issued w [RedisGet u])"
  using fetch_redis_snd [of w u] by (simp add: prod_eq_iff)

lemma is_finished_store: "store w' = store w \<Longrightarrow> is_finished w' u = is_finished w u"
  using fetch_redis_fst_store [of w' w u] by (simp add: is_finished_def)

lemma readable_store: "store w' = store w \<Longrightarrow> readable w' u = readable w u"
  using fetch_redis_fst_store [of w' w u] by (simp add: readable_def)

lemma finished_indices_store:
  "store w' = store w \<Longrightarrow> finished_indices w' i us = finished_indices w i us"
  by (induction us arbitrary: i) (simp_all add: is_finished_store [of w' w])

lemma collect_pop_indices_readable:
  "\<forall>u\<in>set us. readable w u \<Longrightarrow>
   collect_pop_indices w i us acc =
     (Inr (acc @ finished_indices w i us), issued w (map RedisGet us))"
proof (induction us arbitrary: w i acc)
  case Nil
  then show ?case by simp
next
  case (Cons u us)
  from Cons.prems have ru: "readable w u" by simp
  then obtain r where r: "fst (fetch_redis w u) = Inr r"
    by (auto simp: readable_def split: sum.splits)
  let ?w = "issued w [RedisGet u]"
  have st: "store ?w = store w" by simp
  have f: "fetch_redis w u = (Inr r, ?w)"
    using fetch_redis_eq [of w u] r by simp
  have "\<forall>v\<in>set us. readable ?w v"
    using Cons.prems by (simp add: readable_store [OF st])
  from Cons.IH [OF this] show ?case
    using r by (simp add: f is_finished_def finished_indices_store [OF st])
qed

lemma finished_indices_snoc:
  "finished_indices w i (us @ [u]) =
     finished_indices w i us @ (if is_finished w u then [i + length us] else [])"
  by (induction us arbitrary: i) simp_all

lemma py_pop_append:
  "py_pop (JArray xs) idx = Inr (JArray xs') \<Longrightarrow> py_pop (JArray (xs @ ys)) idx = Inr (JArray (xs' @ ys))"
  by (auto split: if_splits)

lemma py_pop_JArray: "py_pop (JArray xs) idx = Inr v \<Longrightarrow> \<exists>xs'. v = JArray xs'"
  by (auto split: if_splits)

lemma pop_each_append:
  "pop_each (JArray xs) is = Inr (JArray xs') \<Longrightarrow>
   pop_each (JArray (xs @ ys)) is = Inr (JArray (xs' @ ys))"
proof (induction "is" arbitrary: xs)
  case Nil
  then show ?case by simp
next
  case (Cons i "is")
  from Cons.prems obtain v where v: "py_pop (JArray xs) i = Inr v"
    by (auto split: sum.splits)
  then obtain zs where zs: "v = JArray zs" using py_pop_JArray by blast
  from Cons.prems v zs have "pop_each (JArray zs) is = Inr (JArray xs')" by simp
  from Cons.IH [OF this] show ?case
    using py_pop_append [of xs i zs ys] v zs by simp
qed

lemma py_pop_last: "py_pop (JArray (xs @ [x])) (length xs) = Inr (JArray xs)"
  by simp

lemma pop_each_finished:
  "pop_each (JArray q) (rev (finished_indices w 0 q)) = Inr (JArray (unfinished w q))"
proof (induction q rule: rev_induct)
  case Nil
  then show ?case by (simp add: unfinished_def)
next
  case (snoc u q)
  show ?case
  proof (cases "is_finished w u")
    case True
    then show ?thesis
      using snoc.IH by (simp add: finished_indices_snoc unfinished_def del: py_pop.simps add: py_pop_last)
  next
    case False
    then show ?thesis
      using pop_each_append [OF snoc.IH, of "[u]"]
      by (simp add: finished_indices_snoc unfinished_def)
  qed
qed

lemma finished_indices_Nil_iff:
  "finished_indices w i q = [] \<longleftrightarrow> unfinished w q = q"
proof (induction q arbitrary: i)
  case Nil
  then show ?case by (simp add: unfinished_def)
next
  case (Cons u q)
  have "length (filter (\<lambda>u. \<not> is_finished w u) q) \<le> length q" by simp
  then have "filter (\<lambda>u. \<not> is_finished w u) q \<noteq> u # q"
    by (metis impossible_Cons)
  then show ?case using Cons.IH by (simp add: unfinished_def)
qed

lemma get_pending_queue_eq:
  "get_pending_queue w = (snapshot w, issued w [RedisGet pending_queue_key])"
  by (simp add: snapshot_def get_pending_queue_def redis_get_def issued_def split: option.splits)

lemma snapshot_store: "snapshot w = (case store w pending_queue_key of None \<Rightarrow> JArray [] | Some v \<Rightarrow> v)"
  by (simp add: snapshot_def get_pending_queue_def redis_get_def split: option.splits)

lemma fetch_redis_fst:
  "fst (fetch_redis w u) =
     (case store w u of None \<Rightarrow> Inr (StatusData ''pending'' None) | Some v \<Rightarrow> load_StatusData v)"
  by (simp add: fetch_redis_def redis_get_def split: option.splits)

lemma issued_views [simp]:
  "snapshot (issued w es) = snapshot w"
  "is_finished (issued w es) u = is_finished w u"
  "readable (issued w es) u = readable w u"
  "finished_indices (issued w es) i us = finished_indices w i us"
  "unfinished (issued w es) q = unfinished w q"
proof -
  have st: "store (issued w es) = store w" by simp
  show "snapshot (issued w es) = snapshot w" by (simp add: snapshot_store)
  show f: "is_finished (issued w es) u = is_finished w u" for u
    by (rule is_finished_store [OF st])
  show "readable (issued w es) u = readable w u" by (rule readable_store [OF st])
  show "finished_indices (issued w es) i us = finished_indices w i us"
    by (rule finished_indices_store [OF st])
  show "unfinished (issued w es) q = unfinished w q" by (simp add: unfinished_def f)
qed

lemma prune_and_rewrite_array:
  assumes q: "snapshot w = JArray q" and r: "\<forall>u\<in>set q. readable w u"
  shows "prune_and_rewrite w =
     (Inr (JArray (unfinished w q)),
      if unfinished w q \<noteq> q
      then redis_set (issued w (RedisGet pending_queue_key # map RedisGet q)) pending_queue_key
             (JArray (unfinished w q))
      else issued w (RedisGet pending_queue_key # map RedisGet q))"
proof -
  let ?w1 = "issued w [RedisGet pending_queue_key]"
  have r1: "\<forall>u\<in>set q. readable ?w1 u" using r by simp
  have c: "collect_pop_indices ?w1 0 q [] =
      (Inr (finished_indices w 0 q), issued w (RedisGet pending_queue_key # map RedisGet q))"
    using collect_pop_indices_readable [OF r1, of 0 "[]"] by simp
  show ?thesis
    by (simp add: prune_and_rewrite_def get_pending_queue_eq q c pop_each_finished
        finished_indices_Nil_iff)
qed

lemmas scenario_eval =
  scenario_def snapshot_store readable_def is_finished_def fetch_redis_fst pending_queue_key_def
  redis_set_def issued_def unfinished_def

section \<open>Pruning the pending queue\<close>

text \<open>
  C3. For every stored pending queue \<open>q\<close> whose uids have readable records, the pruning
  step removes exactly the uids whose Task Record is finished and keeps the others in
  their order: it returns \<open>filter (\<lambda>u. \<not> is_finished w u) q\<close>. It writes this list back
  under the queue key if and only if it differs from \<open>q\<close>, that is, when at least one uid
  was removed; otherwise it only reads.
\<close>

theorem prune_and_rewrite_filter:
  assumes "snapshot w = JArray q" and "\<forall>u\<in>set q. readable w u"
  shows "prune_and_rewrite w =
     (Inr (JArray (filter (\<lambda>u. \<not> is_finished w u) q)),
      if filter (\<lambda>u. \<not> is_finished w u) q \<noteq> q
      then redis_set (issued w (RedisGet pending_queue_key # map RedisGet q)) pending_queue_key
             (JArray (filter (\<lambda>u. \<not> is_finished w u) q))
      else issued w (RedisGet pending_queue_key # map RedisGet q))"
  using prune_and_rewrite_array [OF assms] by (simp add: unfinished_def)

theorem prune_and_rewrite_filter_witness:
  "snapshot scenario = JArray [''abc123'', ''def456'', ''ghi789''] \<and>
   fst (prune_and_rewrite scenario) = Inr (JArray [''def456'', ''ghi789'']) \<and>
   store (snd (prune_and_rewrite scenario)) pending_queue_key = Some (JArray [''def456'', ''ghi789'']) \<and>
   trace (snd (prune_and_rewrite scenario)) =
     [RedisGet pending_queue_key, RedisGet ''abc123'', RedisGet ''def456'', RedisGet ''ghi789'',
      RedisSet pending_queue_key (JArray [''def456'', ''ghi789''])]"
proof -
  have s: "snapshot scenario = JArray [''abc123'', ''def456'', ''ghi789'']"
    by (simp add: scenario_eval)
  have r: "\<forall>u\<in>set [''abc123'', ''def456'', ''ghi789'']. readable scenario u"
    by (simp add: scenario_eval)
  show ?thesis
    using prune_and_rewrite_filter [OF s r] s by (simp add: scenario_eval)
qed

section \<open>The status query\<close>

lemma list_index_in: "x \<in> set xs \<Longrightarrow> list_index xs x = Inr (length (takeWhile (\<lambda>y. y \<noteq> x) xs))"
  by (induction xs) auto

lemma list_index_notin: "x \<notin> set xs \<Longrightarrow> list_index xs x = Inl ValueError"
  by (induction xs) auto

lemma takeWhile_filter:
  "P x \<Longrightarrow> takeWhile (\<lambda>y. y \<noteq> x) (filter P xs) = filter P (takeWhile (\<lambda>y. y \<noteq> x) xs)"
proof (induction xs)
  case Nil
  then show ?case by simp
next
  case (Cons a xs)
  then show ?case by (cases "a = x") simp_all
qed

lemma Status_of_finished: "Status_of st = Some FINISHED \<longleftrightarrow> st = ''finished''"
  by (simp add: Status_of_def)

lemma get_status_finished:
  assumes "fst (fetch_redis w uid) = Inr r" and "StatusData.status r = ''finished''"
  shows "get_status w uid = (Inr (StatusModel FINISHED 0 (StatusData.data r)), issued w [RedisGet uid])"
proof -
  have f: "fetch_redis w uid = (Inr r, issued w [RedisGet uid])"
    using fetch_redis_eq [of w uid] assms(1) by simp
  show ?thesis
    by (simp add: get_status_def f assms(2) make_StatusModel_def Status_of_def)
qed

lemma get_status_unfinished:
  assumes r: "fst (fetch_redis w uid) = Inr r" and nf: "StatusData.status r \<noteq> ''finished''"
    and q: "snapshot w = JArray q" and rd: "\<forall>u\<in>set q. readable w u"
  shows "get_status w uid =
     (make_StatusModel (StatusData.status r) (StatusData.data r)
        (queue_lag (JArray (unfinished w q)) uid),
      if unfinished w q \<noteq> q
      then redis_set (issued w (RedisGet uid # RedisGet pending_queue_key # map RedisGet q))
             pending_queue_key (JArray (unfinished w q))
      else issued w (RedisGet uid # RedisGet pending_queue_key # map RedisGet q))"
proof -
  let ?w1 = "issued w [RedisGet uid]"
  have f: "fetch_redis w uid = (Inr r, ?w1)"
    using fetch_redis_eq [of w uid] r by simp
  have q1: "snapshot ?w1 = JArray q" using q by simp
  have rd1: "\<forall>u\<in>set q. readable ?w1 u" using rd by simp
  show ?thesis
    using prune_and_rewrite_array [OF q1 rd1]
    by (simp add: get_status_def f nf)
qed

lemma queue_lag_in:
  "uid \<in> set xs \<Longrightarrow> queue_lag (JArray xs) uid = int (length (takeWhile (\<lambda>y. y \<noteq> uid) xs))"
  by (simp add: queue_lag_def list_index_in)

lemma queue_lag_notin: "uid \<notin> set xs \<Longrightarrow> queue_lag (JArray xs) uid = int (length xs) - 1"
  by (simp add: queue_lag_def list_index_notin)

lemma make_StatusModel_valid:
  "Status_of st = Some s \<Longrightarrow> make_StatusModel st d lag = Inr (StatusModel s lag d)"
  by (simp add: make_StatusModel_def)

lemma is_finished_fetch:
  "fst (fetch_redis w uid) = Inr r \<Longrightarrow> is_finished w uid \<longleftrightarrow> StatusData.status r = ''finished''"
  by (simp add: is_finished_def)

lemma is_finished_at: "store w' u = store w u \<Longrightarrow> is_finished w' u = is_finished w u"
  by (simp add: is_finished_def fetch_redis_fst)

lemma readable_at: "store w' u = store w u \<Longrightarrow> readable w' u = readable w u"
  by (simp add: readable_def fetch_redis_fst)

lemma queue_key_not_in_queue:
  assumes "snapshot w = JArray q" and "\<forall>u\<in>set q. readable w u"
  shows "pending_queue_key \<notin> set q"
proof
  assume m: "pending_queue_key \<in> set q"
  then have "readable w pending_queue_key" using assms(2) by simp
  moreover have "q \<noteq> []" using m by auto
  ultimately show False
    using assms(1)
    by (auto simp: snapshot_store readable_def fetch_redis_fst split: option.splits json.splits)
qed


lemma get_status_queued:
  assumes "fst (fetch_redis w uid) = Inr r"
    and "Status_of (StatusData.status r) = Some s" and "s \<noteq> FINISHED"
    and "snapshot w = JArray q" and "\<forall>u\<in>set q. readable w u"
    and "uid \<in> set q"
  shows "uid \<in> set (filter (\<lambda>u. \<not> is_finished w u) q) \<and>
         py_index (JArray (filter (\<lambda>u. \<not> is_finished w u) q)) uid =
           Inr (length (filter (\<lambda>u. \<not> is_finished w u) (takeWhile (\<lambda>u. u \<noteq> uid) q))) \<and>
         fst (get_status w uid) =
           Inr (StatusModel s
                  (int (length (filter (\<lambda>u. \<not> is_finished w u) (takeWhile (\<lambda>u. u \<noteq> uid) q))))
                  (StatusData.data r))"
proof -
  have nf: "StatusData.status r \<noteq> ''finished''"
    using assms(2,3) by (auto simp: Status_of_def)
  then have keep: "\<not> is_finished w uid"
    using is_finished_fetch [OF assms(1)] by simp
  then have mem: "uid \<in> set (filter (\<lambda>u. \<not> is_finished w u) q)"
    using assms(6) by simp
  have tw: "takeWhile (\<lambda>u. u \<noteq> uid) (filter (\<lambda>u. \<not> is_finished w u) q) =
            filter (\<lambda>u. \<not> is_finished w u) (takeWhile (\<lambda>u. u \<noteq> uid) q)"
    using takeWhile_filter [of "\<lambda>u. \<not> is_finished w u" uid q] keep by simp
  have idx: "py_index (JArray (filter (\<lambda>u. \<not> is_finished w u) q)) uid =
      Inr (length (filter (\<lambda>u. \<not> is_finished w u) (takeWhile (\<lambda>u. u \<noteq> uid) q)))"
    using list_index_in [OF mem] by (simp add: tw)
  have "fst (get_status w uid) =
      Inr (StatusModel s
             (int (length (filter (\<lambda>u. \<not> is_finished w u) (takeWhile (\<lambda>u. u \<noteq> uid) q))))
             (StatusData.data r))"
    using get_status_unfinished [OF assms(1) nf assms(4,5)] queue_lag_in [OF mem]
    by (simp add: unfinished_def tw make_StatusModel_valid [OF assms(2)])
  with mem idx show ?thesis by simp
qed

text \<open>
  C4. For every uid whose Task Record status is finished, \<^verbatim>\<open>get_status\<close> returns lag 0
  whatever the queue holds and wherever the uid stands in it. The store is unchanged, and
  the only command issued is the read of the uid's record: the queue is neither read nor
  written.
\<close>

theorem finished_lag_zero:
  assumes "store w uid = Some (JObject ''finished'' d)"
  shows "get_status w uid =
           (Inr (StatusModel FINISHED 0 d), w\<lparr>trace := trace w @ [RedisGet uid]\<rparr>)"
proof -
  have "fst (fetch_redis w uid) = Inr (StatusData ''finished'' d)"
    using assms by (simp add: fetch_redis_fst)
  from get_status_finished [OF this] show ?thesis by (simp add: issued_def)
qed

theorem finished_lag_zero_witness:
  "fst (get_status scenario ''abc123'') = Inr (StatusModel FINISHED 0 (Some ''url'')) \<and>
   store (snd (get_status scenario ''abc123'')) = store scenario \<and>
   trace (snd (get_status scenario ''abc123'')) = [RedisGet ''abc123'']"
proof -
  have "store scenario ''abc123'' = Some (JObject ''finished'' (Some ''url''))"
    by (simp add: scenario_eval)
  from finished_lag_zero [OF this] show ?thesis by (simp add: scenario_def)
qed

text \<open>
  C5. For every uid whose Task Record status is not finished, when the uid is not in the
  pruned queue, \<^verbatim>\<open>get_status\<close> does not fail: it returns the length of the pruned queue
  minus one as the lag.
\<close>

theorem fallback_lag:
  assumes "fst (fetch_redis w uid) = Inr r"
    and "Status_of (StatusData.status r) = Some s" and "s \<noteq> FINISHED"
    and "snapshot w = JArray q" and "\<forall>u\<in>set q. readable w u"
    and "uid \<notin> set (filter (\<lambda>u. \<not> is_finished w u) q)"
  shows "fst (get_status w uid) =
           Inr (StatusModel s (int (length (filter (\<lambda>u. \<not> is_finished w u) q)) - 1)
                  (StatusData.data r))"
proof -
  have nf: "StatusData.status r \<noteq> ''finished''"
    using assms(2,3) by (auto simp: Status_of_def)
  show ?thesis
    using get_status_unfinished [OF assms(1) nf assms(4,5)] assms(6)
    by (simp add: unfinished_def queue_lag_notin make_StatusModel_valid [OF assms(2)])
qed

theorem fallback_lag_witness:
  "fst (get_status scenario ''never-submitted'') = Inr (StatusModel PENDING 1 None)"
proof -
  have 1: "fst (fetch_redis scenario ''never-submitted'') = Inr (StatusData ''pending'' None)"
    by (simp add: scenario_eval)
  have 2: "Status_of (StatusData.status (StatusData ''pending'' None)) = Some PENDING"
    by (simp add: Status_of_def)
  have 3: "PENDING \<noteq> FINISHED" by simp
  have 4: "snapshot scenario = JArray [''abc123'', ''def456'', ''ghi789'']"
    by (simp add: scenario_eval)
  have 5: "\<forall>u\<in>set [''abc123'', ''def456'', ''ghi789'']. readable scenario u"
    by (simp add: scenario_eval)
  have 6: "''never-submitted'' \<notin>
      set (filter (\<lambda>u. \<not> is_finished scenario u) [''abc123'', ''def456'', ''ghi789''])"
    by simp
  from fallback_lag [OF 1 2 3 4 5 6] show ?thesis by (simp add: scenario_eval)
qed

text \<open>
  C9. For every uid whose Task Record status is not finished and that is in the stored
  queue, pruning keeps the uid, \<^verbatim>\<open>queue.index\<close> finds it (the fallback is not taken), and
  the lag is the number of uids ahead of its first occurrence whose record is not
  finished.
\<close>

theorem lag_counts_unfinished_ahead:
  assumes "fst (fetch_redis w uid) = Inr r"
    and "Status_of (StatusData.status r) = Some s" and "s \<noteq> FINISHED"
    and "snapshot w = JArray q" and "\<forall>u\<in>set q. readable w u"
    and "uid \<in> set q"
  shows "uid \<in> set (filter (\<lambda>u. \<not> is_finished w u) q) \<and>
         py_index (JArray (filter (\<lambda>u. \<not> is_finished w u) q)) uid =
           Inr (length (filter (\<lambda>u. \<not> is_finished w u) (takeWhile (\<lambda>u. u \<noteq> uid) q))) \<and>
         fst (get_status w uid) =
           Inr (StatusModel s
                  (int (length (filter (\<lambda>u. \<not> is_finished w u) (takeWhile (\<lambda>u. u \<noteq> uid) q))))
                  (StatusData.data r))"
  using get_status_queued [OF assms] .

theorem lag_counts_unfinished_ahead_witness:
  "fst (get_status scenario ''ghi789'') = Inr (StatusModel PENDING 1 None)"
proof -
  have 1: "fst (fetch_redis scenario ''ghi789'') = Inr (StatusData ''pending'' None)"
    by (simp add: scenario_eval)
  have 2: "Status_of (StatusData.status (StatusData ''pending'' None)) = Some PENDING"
    by (simp add: Status_of_def)
  have 3: "PENDING \<noteq> FINISHED" by simp
  have 4: "snapshot scenario = JArray [''abc123'', ''def456'', ''ghi789'']"
    by (simp add: scenario_eval)
  have 5: "\<forall>u\<in>set [''abc123'', ''def456'', ''ghi789'']. readable scenario u"
    by (simp add: scenario_eval)
  have 6: "''ghi789'' \<in> set [''abc123'', ''def456'', ''ghi789'']" by simp
  from lag_counts_unfinished_ahead [OF 1 2 3 4 5 6] show ?thesis by (simp add: scenario_eval)
qed

text \<open>
  C10. For every uid whose Task Record status is not finished, when the uid is absent
  from the queue and the pruned queue is empty, \<^verbatim>\<open>get_status\<close> returns \<open>pending = -1\<close>: the
  public field can be negative.
\<close>

theorem pending_can_be_negative:
  assumes "fst (fetch_redis w uid) = Inr r"
    and "Status_of (StatusData.status r) = Some s" and "s \<noteq> FINISHED"
    and "snapshot w = JArray q" and "\<forall>u\<in>set q. readable w u"
    and "uid \<notin> set q" and "filter (\<lambda>u. \<not> is_finished w u) q = []"
  shows "fst (get_status w uid) = Inr (StatusModel s (- 1) (StatusData.data r))"
proof -
  have nf: "StatusData.status r \<noteq> ''finished''"
    using assms(2,3) by (auto simp: Status_of_def)
  show ?thesis
    using get_status_unfinished [OF assms(1) nf assms(4,5)]
    by (simp add: unfinished_def assms(7) queue_lag_def make_StatusModel_valid [OF assms(2)])
qed

theorem pending_can_be_negative_witness:
  "fst (get_status drained ''def456'') = Inr (StatusModel PENDING (- 1) None) \<and>
   StatusModel.pending (StatusModel PENDING (- 1) None) < 0"
proof -
  have 1: "fst (fetch_redis drained ''def456'') = Inr (StatusData ''pending'' None)"
    by (simp add: drained_def fetch_redis_fst pending_queue_key_def)
  have 2: "Status_of (StatusData.status (StatusData ''pending'' None)) = Some PENDING"
    by (simp add: Status_of_def)
  have 3: "PENDING \<noteq> FINISHED" by simp
  have 4: "snapshot drained = JArray [''abc123'']"
    by (simp add: drained_def snapshot_store pending_queue_key_def)
  have 5: "\<forall>u\<in>set [''abc123'']. readable drained u"
    by (simp add: drained_def readable_def fetch_redis_fst pending_queue_key_def)
  have 6: "''def456'' \<notin> set [''abc123'']" by simp
  have 7: "filter (\<lambda>u. \<not> is_finished drained u) [''abc123''] = []"
    by (simp add: drained_def is_finished_def fetch_redis_fst pending_queue_key_def)
  from pending_can_be_negative [OF 1 2 3 4 5 6 7] show ?thesis by simp
qed

text \<open>
  C1, as stated, fails: a status query for a finished uid returns before the pruning
  step (line 226), so the uid stays in the queue. In the scenario, \<^verbatim>\<open>abc123\<close> is finished,
  \<^verbatim>\<open>get_status\<close> observes it as finished, and the snapshot afterwards still holds it.
\<close>

theorem finished_query_keeps_queue:
  "fst (get_status scenario ''abc123'') = Inr (StatusModel FINISHED 0 (Some ''url'')) \<and>
   snapshot (snd (get_status scenario ''abc123'')) = JArray [''abc123'', ''def456'', ''ghi789''] \<and>
   ''abc123'' \<in> set (py_iter (snapshot (snd (get_status scenario ''abc123''))))"
proof -
  have f: "fst (fetch_redis scenario ''abc123'') = Inr (StatusData ''finished'' (Some ''url''))"
    by (simp add: scenario_eval)
  have "get_status scenario ''abc123'' =
      (Inr (StatusModel FINISHED 0 (Some ''url'')), issued scenario [RedisGet ''abc123''])"
    using get_status_finished [OF f] by simp
  then show ?thesis by (simp add: scenario_eval)
qed

text \<open>
  C1, amended. A finished uid leaves the queue when a status query for a uid \<open>v\<close> whose
  own status is not finished runs the pruning step: after \<open>get_status w v\<close> the snapshot
  is the stored queue without the finished uids, so no finished uid is in it. A status
  query for the finished uid itself returns lag 0 and leaves the queue as it is.
\<close>

theorem unfinished_query_prunes_finished:
  assumes "fst (fetch_redis w v) = Inr r" and "StatusData.status r \<noteq> ''finished''"
    and "snapshot w = JArray q" and "\<forall>u\<in>set q. readable w u"
    and "is_finished w uid"
  shows "snapshot (snd (get_status w v)) = JArray (filter (\<lambda>u. \<not> is_finished w u) q) \<and>
         uid \<notin> set (py_iter (snapshot (snd (get_status w v)))) \<and>
         snapshot (snd (get_status w uid)) = snapshot w \<and>
         (\<exists>d. fst (get_status w uid) = Inr (StatusModel FINISHED 0 d))"
proof -
  have a: "snapshot (snd (get_status w v)) = JArray (filter (\<lambda>u. \<not> is_finished w u) q)"
    using get_status_unfinished [OF assms(1-4)] assms(3)
    by (simp add: unfinished_def snapshot_store redis_set_def)
  from assms(5) obtain r' where
    r': "fst (fetch_redis w uid) = Inr r'" "StatusData.status r' = ''finished''"
    by (auto simp: is_finished_def split: sum.splits)
  then have b: "snapshot (snd (get_status w uid)) = snapshot w"
    by (simp add: get_status_finished)
  have c: "\<exists>d. fst (get_status w uid) = Inr (StatusModel FINISHED 0 d)"
    using get_status_finished [OF r'] by simp
  show ?thesis using a b c assms(5) by simp
qed

theorem unfinished_query_prunes_finished_witness:
  "snapshot (snd (get_status scenario ''ghi789'')) = JArray [''def456'', ''ghi789''] \<and>
   ''abc123'' \<notin> set (py_iter (snapshot (snd (get_status scenario ''ghi789'')))) \<and>
   snapshot (snd (get_status scenario ''abc123'')) = JArray [''abc123'', ''def456'', ''ghi789''] \<and>
   (\<exists>d. fst (get_status scenario ''abc123'') = Inr (StatusModel FINISHED 0 d))"
proof -
  have 1: "fst (fetch_redis scenario ''ghi789'') = Inr (StatusData ''pending'' None)"
    by (simp add: scenario_eval)
  have 2: "StatusData.status (StatusData ''pending'' None) \<noteq> ''finished''" by simp
  have 3: "snapshot scenario = JArray [''abc123'', ''def456'', ''ghi789'']"
    by (simp add: scenario_eval)
  have 4: "\<forall>u\<in>set [''abc123'', ''def456'', ''ghi789'']. readable scenario u"
    by (simp add: scenario_eval)
  have 5: "is_finished scenario ''abc123''" by (simp add: scenario_eval)
  have f: "\<not> is_finished scenario ''def456''" "\<not> is_finished scenario ''ghi789''"
    by (simp_all add: scenario_eval)
  from unfinished_query_prunes_finished [OF 1 2 3 4 5] show ?thesis by (simp add: 3 5 f)
qed

section \<open>Pruning twice\<close>

lemma redis_set_views:
  "store (redis_set w k v) = (store w)(k \<mapsto> v)"
  "trace (redis_set w k v) = trace w @ [RedisSet k v]"
  "kafka_up (redis_set w k v) = kafka_up w"
  "snapshot (redis_set w pending_queue_key v) = v"
  by (simp_all add: redis_set_def snapshot_store)

lemma unfinished_cong:
  "\<forall>u\<in>set q. is_finished w' u = is_finished w u \<Longrightarrow> unfinished w' q = unfinished w q"
  by (simp add: unfinished_def cong: filter_cong)

lemma unfinished_idem: "unfinished w (unfinished w q) = unfinished w q"
  by (simp add: unfinished_def)

lemma prune_and_rewrite_twice:
  assumes q: "snapshot w = JArray q" and rd: "\<forall>u\<in>set q. readable w u"
  shows "prune_and_rewrite (snd (prune_and_rewrite w)) =
           (Inr (JArray (unfinished w q)),
            issued (snd (prune_and_rewrite w))
              (RedisGet pending_queue_key # map RedisGet (unfinished w q)))"
proof -
  let ?q' = "unfinished w q"
  let ?w1 = "snd (prune_and_rewrite w)"
  have key: "pending_queue_key \<notin> set q" by (rule queue_key_not_in_queue [OF q rd])
  have sub: "set ?q' \<subseteq> set q" by (auto simp: unfinished_def)
  have st: "\<forall>u\<in>set q. store ?w1 u = store w u"
    using key by (auto simp: prune_and_rewrite_array [OF q rd] redis_set_views)
  have q1: "snapshot ?w1 = JArray ?q'"
    using q by (simp add: prune_and_rewrite_array [OF q rd] redis_set_views)
  have rd1: "\<forall>u\<in>set ?q'. readable ?w1 u"
    using rd sub st readable_at [of ?w1 _ w] by blast
  have "\<forall>u\<in>set ?q'. is_finished ?w1 u = is_finished w u"
    using sub st is_finished_at [of ?w1 _ w] by blast
  then have same: "unfinished ?w1 ?q' = ?q'"
    using unfinished_cong [of ?q' ?w1 w] by (simp add: unfinished_idem)
  show ?thesis
    using prune_and_rewrite_array [OF q1 rd1] by (simp add: same)
qed

lemma fetch_redis_issued:
  "fetch_redis (issued w es) u = (fst (fetch_redis w u), issued w (es @ [RedisGet u]))"
proof -
  have "store (issued w es) = store w" by simp
  from fetch_redis_fst_store [OF this] show ?thesis
    using fetch_redis_eq [of "issued w es" u] by simp
qed

lemma collect_pop_indices_reads:
  "\<exists>res t. filter is_write t = [] \<and>
     (\<forall>es. collect_pop_indices (issued w es) i us acc = (res, issued w (es @ t)))"
proof (induction us arbitrary: i acc)
  case Nil
  have "filter is_write [] = [] \<and>
     (\<forall>es. collect_pop_indices (issued w es) i [] acc = (Inr acc, issued w (es @ [])))"
    by simp
  then show ?case by blast
next
  case (Cons u us)
  show ?case
  proof (cases "fst (fetch_redis w u)")
    case (Inl e)
    have "filter is_write [RedisGet u] = [] \<and>
      (\<forall>es. collect_pop_indices (issued w es) i (u # us) acc = (Inl e, issued w (es @ [RedisGet u])))"
      by (simp add: fetch_redis_issued Inl)
    then show ?thesis by blast
  next
    case (Inr r)
    let ?acc = "if StatusData.status r = ''finished'' then acc @ [i] else acc"
    from Cons.IH [of "Suc i" ?acc] obtain res t where
      t: "filter is_write t = []" and
      c: "\<And>es. collect_pop_indices (issued w es) (Suc i) us ?acc = (res, issued w (es @ t))"
      by blast
    have "filter is_write (RedisGet u # t) = [] \<and>
      (\<forall>es. collect_pop_indices (issued w es) i (u # us) acc = (res, issued w (es @ RedisGet u # t)))"
      using t c [of "_ @ [RedisGet u]"] by (simp add: fetch_redis_issued Inr)
    then show ?thesis by blast
  qed
qed

lemma collect_pop_indices_Inr_readable:
  "fst (collect_pop_indices w i us acc) = Inr idxs \<Longrightarrow> \<forall>u\<in>set us. readable w u"
proof (induction us arbitrary: w i acc)
  case Nil
  then show ?case by simp
next
  case (Cons u us)
  show ?case
  proof (cases "fst (fetch_redis w u)")
    case (Inl e)
    then have "fetch_redis w u = (Inl e, issued w [RedisGet u])"
      using fetch_redis_eq [of w u] by simp
    with Cons.prems show ?thesis by simp
  next
    case (Inr r)
    then have f: "fetch_redis w u = (Inr r, issued w [RedisGet u])"
      using fetch_redis_eq [of w u] by simp
    from Cons.prems have
      "fst (collect_pop_indices (issued w [RedisGet u]) (Suc i) us
              (if StatusData.status r = ''finished'' then acc @ [i] else acc)) = Inr idxs"
      by (simp add: f)
    from Cons.IH [OF this] have "\<forall>v\<in>set us. readable w v" by simp
    then show ?thesis using Inr by (simp add: readable_def)
  qed
qed

lemma pop_each_JObject:
  "pop_each (JObject st d) idxs = (if idxs = [] then Inr (JObject st d) else Inl KeyError)"
  by (cases idxs) simp_all

lemma prune_and_rewrite_cases:
  "(\<exists>res t. filter is_write t = [] \<and> (\<forall>v. res = Inr v \<longrightarrow> v = snapshot w) \<and>
       (\<forall>es. prune_and_rewrite (issued w es) = (res, issued w (es @ t)))) \<or>
   (\<exists>q. snapshot w = JArray q \<and> (\<forall>u\<in>set q. readable w u))"
proof -
  from collect_pop_indices_reads [of w 0 "py_iter (snapshot w)" "[]"] obtain res t where
    t: "filter is_write t = []" and
    c: "\<And>es. collect_pop_indices (issued w es) 0 (py_iter (snapshot w)) [] = (res, issued w (es @ t))"
    by blast
  have g: "\<And>es. get_pending_queue (issued w es) = (snapshot w, issued w (es @ [RedisGet pending_queue_key]))"
    by (simp add: get_pending_queue_eq)
  show ?thesis
  proof (cases res)
    case (Inl e)
    have "filter is_write (RedisGet pending_queue_key # t) = [] \<and>
        (\<forall>v. Inl e = Inr v \<longrightarrow> v = snapshot w) \<and>
        (\<forall>es. prune_and_rewrite (issued w es) = (Inl e, issued w (es @ RedisGet pending_queue_key # t)))"
      using t c [of "_ @ [RedisGet pending_queue_key]"] Inl
      by (simp add: prune_and_rewrite_def g)
    then show ?thesis by blast
  next
    case (Inr idxs)
    show ?thesis
    proof (cases "snapshot w")
      case (JArray q)
      have "fst (collect_pop_indices (issued w []) 0 q []) = Inr idxs"
        using c [of "[]"] Inr JArray by simp
      then have "\<forall>u\<in>set q. readable w u"
        using collect_pop_indices_Inr_readable [of w 0 q "[]" idxs] by simp
      with JArray show ?thesis by blast
    next
      case (JObject st d)
      let ?res = "if idxs = [] then Inr (JObject st d) else Inl KeyError"
      have "filter is_write (RedisGet pending_queue_key # t) = [] \<and>
          (\<forall>v. ?res = Inr v \<longrightarrow> v = snapshot w) \<and>
          (\<forall>es. prune_and_rewrite (issued w es) =
                  (?res, issued w (es @ RedisGet pending_queue_key # t)))"
        using t c [of "_ @ [RedisGet pending_queue_key]"] Inr JObject
        by (simp add: prune_and_rewrite_def g pop_each_JObject)
      then show ?thesis by blast
    qed
  qed
qed

lemma filter_is_write_reads: "filter is_write (map RedisGet us) = []"
  by (induction us) simp_all

lemma snapshot_after_prune:
  assumes q: "snapshot w = JArray q" and rd: "\<forall>u\<in>set q. readable w u"
  shows "snapshot (snd (prune_and_rewrite w)) = JArray (unfinished w q)"
  using q by (simp add: prune_and_rewrite_array [OF q rd] redis_set_views)

text \<open>
  C8. Pruning is idempotent, for every world. A second pruning step right after the first
  returns what the first returned; it leaves the store as the first step left it and
  issues no write; and the queue it returns is the queue it read, so it removed nothing.
\<close>

theorem prune_and_rewrite_idempotent:
  "fst (prune_and_rewrite (snd (prune_and_rewrite w))) = fst (prune_and_rewrite w) \<and>
   store (snd (prune_and_rewrite (snd (prune_and_rewrite w)))) = store (snd (prune_and_rewrite w)) \<and>
   filter is_write
     (drop (length (trace (snd (prune_and_rewrite w))))
        (trace (snd (prune_and_rewrite (snd (prune_and_rewrite w)))))) = [] \<and>
   (\<forall>queue. fst (prune_and_rewrite (snd (prune_and_rewrite w))) = Inr queue \<longrightarrow>
      queue = snapshot (snd (prune_and_rewrite w)))"
proof -
  from prune_and_rewrite_cases [of w] show ?thesis
  proof (elim disjE exE conjE)
    fix res t
    assume t: "filter is_write t = []"
      and v: "\<forall>v. res = Inr v \<longrightarrow> v = snapshot w"
      and p: "\<forall>es. prune_and_rewrite (issued w es) = (res, issued w (es @ t))"
    have 1: "prune_and_rewrite w = (res, issued w t)" using p [rule_format, of "[]"] by simp
    have 2: "prune_and_rewrite (issued w t) = (res, issued w (t @ t))"
      using p [rule_format, of t] by simp
    show ?thesis using t v by (simp add: 1 2)
  next
    fix q
    assume q: "snapshot w = JArray q" and rd: "\<forall>u\<in>set q. readable w u"
    show ?thesis
      using prune_and_rewrite_twice [OF q rd] snapshot_after_prune [OF q rd]
      by (simp add: prune_and_rewrite_array [OF q rd] filter_is_write_reads)
  qed
qed

theorem prune_and_rewrite_idempotent_witness:
  "fst (prune_and_rewrite scenario) = Inr (JArray [''def456'', ''ghi789'']) \<and>
   fst (prune_and_rewrite (snd (prune_and_rewrite scenario))) = Inr (JArray [''def456'', ''ghi789'']) \<and>
   snapshot (snd (prune_and_rewrite scenario)) = JArray [''def456'', ''ghi789''] \<and>
   store (snd (prune_and_rewrite (snd (prune_and_rewrite scenario)))) =
     store (snd (prune_and_rewrite scenario))"
proof -
  have s: "snapshot scenario = JArray [''abc123'', ''def456'', ''ghi789'']"
    by (simp add: scenario_eval)
  have r: "\<forall>u\<in>set [''abc123'', ''def456'', ''ghi789'']. readable scenario u"
    by (simp add: scenario_eval)
  have f: "is_finished scenario ''abc123''" "\<not> is_finished scenario ''def456''"
    "\<not> is_finished scenario ''ghi789''"
    by (simp_all add: scenario_eval)
  have 1: "fst (prune_and_rewrite scenario) = Inr (JArray [''def456'', ''ghi789''])"
    by (simp add: prune_and_rewrite_array [OF s r] unfinished_def f)
  note th = prune_and_rewrite_idempotent [of scenario]
  have 2: "fst (prune_and_rewrite (snd (prune_and_rewrite scenario))) =
      Inr (JArray [''def456'', ''ghi789''])"
    using th 1 by simp
  have 3: "snapshot (snd (prune_and_rewrite scenario)) = JArray [''def456'', ''ghi789'']"
    using th 2 by simp
  show ?thesis using th 1 2 3 by simp
qed

section \<open>Submission\<close>

lemma push_success:
  assumes up: "kafka_up w" and q: "snapshot w = JArray q"
  shows "push w uid body topic =
     (Inr (ProducerResponseModel uid),
      w\<lparr>store := (store w)(pending_queue_key \<mapsto> JArray (q @ [uid]), uid \<mapsto> JObject ''pending'' None),
        trace := trace w @
          [KafkaSend topic (Message uid (task body) (params body)),
           RedisGet pending_queue_key,
           RedisSet pending_queue_key (JArray (q @ [uid])),
           RedisSet uid (JObject ''pending'' None)]\<rparr>)"
proof -
  let ?w1 = "issued w [KafkaSend topic (Message uid (task body) (params body))]"
  have k: "kafka_send w topic (Message uid (task body) (params body)) =
      (Inr (if kafka_delivers w then Delivered else Failed KafkaError), ?w1)"
    using up by (simp add: kafka_send_def issued_def)
  have q1: "snapshot ?w1 = JArray q" using q by simp
  have "push w uid body topic =
      (Inr (ProducerResponseModel uid),
       redis_set
         (redis_set
            (issued w [KafkaSend topic (Message uid (task body) (params body)),
                       RedisGet pending_queue_key])
            pending_queue_key (JArray (q @ [uid])))
         uid (JObject ''pending'' None))"
    by (simp add: push_def k get_pending_queue_eq q)
  then show ?thesis
    by (simp add: redis_set_def issued_def)
qed

text \<open>
  C2, as stated, fails: a publish can fail after \<^verbatim>\<open>send\<close> has returned, and \<^verbatim>\<open>push\<close> never
  looks at the future that reports it. In the scenario with a broker whose delivery
  fails, the future of the send is a failure, and \<^verbatim>\<open>push\<close> returns the uid and has written
  the queue entry and the Task Record.
\<close>

theorem push_ignores_failed_delivery:
  "fst (kafka_send (scenario\<lparr>kafka_delivers := False\<rparr>) ''jobs''
          (Message ''jkl012'' ''resize'' [(''w'', ''100''), (''h'', ''100'')])) =
     Inr (Failed KafkaError) \<and>
   fst (push (scenario\<lparr>kafka_delivers := False\<rparr>) ''jkl012''
          \<lparr>task = ''resize'', params = [(''w'', ''100''), (''h'', ''100'')]\<rparr> ''jobs'') =
     Inr (ProducerResponseModel ''jkl012'') \<and>
   store (snd (push (scenario\<lparr>kafka_delivers := False\<rparr>) ''jkl012''
                 \<lparr>task = ''resize'', params = [(''w'', ''100''), (''h'', ''100'')]\<rparr> ''jobs''))
       pending_queue_key =
     Some (JArray [''abc123'', ''def456'', ''ghi789'', ''jkl012'']) \<and>
   store (snd (push (scenario\<lparr>kafka_delivers := False\<rparr>) ''jkl012''
                 \<lparr>task = ''resize'', params = [(''w'', ''100''), (''h'', ''100'')]\<rparr> ''jobs''))
       ''jkl012'' =
     Some (JObject ''pending'' None)"
proof -
  let ?w = "scenario\<lparr>kafka_delivers := False\<rparr>"
  have up: "kafka_up ?w" by (simp add: scenario_def)
  have q: "snapshot ?w = JArray [''abc123'', ''def456'', ''ghi789'']"
    by (simp add: scenario_eval)
  have f: "fst (kafka_send ?w ''jobs''
          (Message ''jkl012'' ''resize'' [(''w'', ''100''), (''h'', ''100'')])) =
     Inr (Failed KafkaError)"
    by (simp add: kafka_send_def scenario_def)
  show ?thesis
    using f by (simp add: push_success [OF up q] pending_queue_key_def)
qed

text \<open>
  C2, amended. When the publish fails by an exception of \<^verbatim>\<open>send\<close>, \<^verbatim>\<open>push\<close> fails with that
  error, returns no uid, and leaves the world as it was: no queue entry and no Task Record
  is written. When the publish fails through the future that \<^verbatim>\<open>send\<close> returns, \<^verbatim>\<open>push\<close>
  does not see it: on a stored queue \<open>q\<close> it returns the uid and writes the queue entry and
  the Task Record, as for a delivered message.
\<close>

theorem push_publish_failure:
  "(\<not> kafka_up w \<longrightarrow> push w uid body topic = (Inl KafkaError, w)) \<and>
   (kafka_up w \<longrightarrow> \<not> kafka_delivers w \<longrightarrow> snapshot w = JArray q \<longrightarrow>
      fst (kafka_send w topic (Message uid (task body) (params body))) = Inr (Failed KafkaError) \<and>
      push w uid body topic =
        (Inr (ProducerResponseModel uid),
         w\<lparr>store := (store w)(pending_queue_key \<mapsto> JArray (q @ [uid]),
                               uid \<mapsto> JObject ''pending'' None),
           trace := trace w @
             [KafkaSend topic (Message uid (task body) (params body)),
              RedisGet pending_queue_key,
              RedisSet pending_queue_key (JArray (q @ [uid])),
              RedisSet uid (JObject ''pending'' None)]\<rparr>))"
proof (intro conjI impI)
  assume "\<not> kafka_up w"
  then show "push w uid body topic = (Inl KafkaError, w)"
    by (simp add: push_def kafka_send_def)
next
  assume "kafka_up w" and "\<not> kafka_delivers w"
  then show "fst (kafka_send w topic (Message uid (task body) (params body))) =
      Inr (Failed KafkaError)"
    by (simp add: kafka_send_def)
next
  assume up: "kafka_up w" and q: "snapshot w = JArray q"
  show "push w uid body topic =
        (Inr (ProducerResponseModel uid),
         w\<lparr>store := (store w)(pending_queue_key \<mapsto> JArray (q @ [uid]),
                               uid \<mapsto> JObject ''pending'' None),
           trace := trace w @
             [KafkaSend topic (Message uid (task body) (params body)),
              RedisGet pending_queue_key,
              RedisSet pending_queue_key (JArray (q @ [uid])),
              RedisSet uid (JObject ''pending'' None)]\<rparr>)"
    by (rule push_success [OF up q])
qed

theorem push_publish_failure_witness:
  "push drained ''def456'' \<lparr>task = ''resize'', params = [(''w'', ''100''), (''h'', ''100'')]\<rparr> ''jobs'' =
     (Inl KafkaError, drained) \<and>
   fst (push (scenario\<lparr>kafka_delivers := False\<rparr>) ''def456''
          \<lparr>task = ''resize'', params = [(''w'', ''100''), (''h'', ''100'')]\<rparr> ''jobs'') =
     Inr (ProducerResponseModel ''def456'')"
proof -
  let ?w = "scenario\<lparr>kafka_delivers := False\<rparr>"
  have 1: "\<not> kafka_up drained" by (simp add: drained_def)
  have 2: "kafka_up ?w" by (simp add: scenario_def)
  have 3: "\<not> kafka_delivers ?w" by simp
  have 4: "snapshot ?w = JArray [''abc123'', ''def456'', ''ghi789'']"
    by (simp add: scenario_eval)
  have a: "push drained ''def456''
      \<lparr>task = ''resize'', params = [(''w'', ''100''), (''h'', ''100'')]\<rparr> ''jobs'' =
     (Inl KafkaError, drained)"
    using push_publish_failure [THEN conjunct1, THEN mp, OF 1] .
  have b: "fst (push ?w ''def456''
          \<lparr>task = ''resize'', params = [(''w'', ''100''), (''h'', ''100'')]\<rparr> ''jobs'') =
     Inr (ProducerResponseModel ''def456'')"
    using push_publish_failure [THEN conjunct2, THEN mp, OF 2, THEN mp, OF 3, THEN mp, OF 4,
        THEN conjunct2]
    by simp
  show ?thesis by (rule conjI [OF a b])
qed





section \<open>Unknown uids\<close>

text \<open>
  C6. For every uid with no value in the store, \<^verbatim>\<open>fetch_redis\<close> returns the record
  \<open>{status: pending, data: null}\<close> and \<^verbatim>\<open>get_status\<close> returns the status pending with no
  data, not an error. The answer is the one \<^verbatim>\<open>get_status\<close> gives when the store holds a
  freshly written pending record under the uid.
\<close>

theorem unknown_uid_is_pending:
  assumes "store w uid = None" and "snapshot w = JArray q" and "\<forall>u\<in>set q. readable w u"
  shows "fetch_redis w uid =
           (Inr (StatusData ''pending'' None), w\<lparr>trace := trace w @ [RedisGet uid]\<rparr>) \<and>
         fst (get_status w uid) =
           Inr (StatusModel PENDING
                  (queue_lag (JArray (filter (\<lambda>u. \<not> is_finished w u) q)) uid) None) \<and>
         (uid \<noteq> pending_queue_key \<longrightarrow>
          fst (get_status (w\<lparr>store := (store w)(uid \<mapsto> JObject ''pending'' None)\<rparr>) uid) =
            fst (get_status w uid))"
proof -
  let ?r = "StatusData ''pending'' None"
  have f: "fst (fetch_redis w uid) = Inr ?r"
    using assms(1) by (simp add: fetch_redis_fst)
  have nf: "StatusData.status ?r \<noteq> ''finished''" by simp
  have a: "fetch_redis w uid = (Inr ?r, w\<lparr>trace := trace w @ [RedisGet uid]\<rparr>)"
    using fetch_redis_eq [of w uid] f by (simp add: issued_def)
  have g: "fst (get_status w uid) =
      Inr (StatusModel PENDING (queue_lag (JArray (unfinished w q)) uid) None)"
    using get_status_unfinished [OF f nf assms(2,3)]
    by (simp add: make_StatusModel_def Status_of_def)
  have c: "fst (get_status (w\<lparr>store := (store w)(uid \<mapsto> JObject ''pending'' None)\<rparr>) uid) =
      fst (get_status w uid)" if ne: "uid \<noteq> pending_queue_key"
  proof -
    let ?w = "w\<lparr>store := (store w)(uid \<mapsto> JObject ''pending'' None)\<rparr>"
    have f': "fst (fetch_redis ?w uid) = Inr ?r" by (simp add: fetch_redis_fst)
    have q': "snapshot ?w = JArray q" using assms(2) ne by (simp add: snapshot_store)
    have fin: "is_finished ?w u = is_finished w u" for u
      using assms(1) by (cases "u = uid") (simp_all add: is_finished_def fetch_redis_fst)
    have rd': "\<forall>u\<in>set q. readable ?w u"
    proof
      fix u assume "u \<in> set q"
      then have "readable w u" using assms(3) by simp
      then show "readable ?w u"
        by (cases "u = uid") (simp_all add: readable_def fetch_redis_fst)
    qed
    have "unfinished ?w q = unfinished w q"
      by (simp add: unfinished_def fin)
    then have "fst (get_status ?w uid) =
        Inr (StatusModel PENDING (queue_lag (JArray (unfinished w q)) uid) None)"
      using get_status_unfinished [OF f' nf q' rd']
      by (simp add: make_StatusModel_def Status_of_def)
    with g show ?thesis by simp
  qed
  show ?thesis using a g c by (simp add: unfinished_def)
qed

theorem unknown_uid_is_pending_witness:
  "fetch_redis scenario ''never-submitted'' =
     (Inr (StatusData ''pending'' None), scenario\<lparr>trace := [RedisGet ''never-submitted'']\<rparr>) \<and>
   fst (get_status scenario ''never-submitted'') = Inr (StatusModel PENDING 1 None) \<and>
   fst (get_status
          (scenario\<lparr>store := (store scenario)(''never-submitted'' \<mapsto> JObject ''pending'' None)\<rparr>)
          ''never-submitted'') =
     Inr (StatusModel PENDING 1 None)"
proof -
  have 1: "store scenario ''never-submitted'' = None"
    by (simp add: scenario_eval)
  have 2: "snapshot scenario = JArray [''abc123'', ''def456'', ''ghi789'']"
    by (simp add: scenario_eval)
  have 3: "\<forall>u\<in>set [''abc123'', ''def456'', ''ghi789'']. readable scenario u"
    by (simp add: scenario_eval)
  have 4: "''never-submitted'' \<noteq> pending_queue_key" by (simp add: pending_queue_key_def)
  have f: "is_finished scenario ''abc123''" "\<not> is_finished scenario ''def456''"
    "\<not> is_finished scenario ''ghi789''"
    by (simp_all add: scenario_eval)
  have t: "trace scenario = []" by (simp add: scenario_def)
  show ?thesis
    using unknown_uid_is_pending [OF 1 2 3] 4
    by (simp add: f t queue_lag_def)
qed

end
